theory Spec2Isabelle
  imports Main "HOL-Library.Word" "HOL-Library.Char_ord" "HOL-Library.List_Lexorder"
begin

section \<open>Data model of \<^verbatim>\<open>src/assembler/assembler.h\<close>\<close>

text \<open>
  The header \<^verbatim>\<open>assembler.h\<close> holds the driver \<^verbatim>\<open>AssemblerBase<ISA>\<close>: the four passes
  of \<^verbatim>\<open>assemble\<close>, the line classifier and \<^verbatim>\<open>disassemble\<close>. The types it uses come
  from headers that are not shown (\<^verbatim>\<open>assembler_defines.h\<close>, \<^verbatim>\<open>instruction.h\<close>,
  \<^verbatim>\<open>pseudoinstruction.h\<close>, \<^verbatim>\<open>directive.h\<close>, \<^verbatim>\<open>matcher.h\<close>); they are rebuilt here
  from the way the header uses them.

  \<^item> \<^verbatim>\<open>QString\<close> is \<open>string\<close>, \<^verbatim>\<open>QStringList\<close> (\<^verbatim>\<open>LineTokens\<close>) a list of strings,
    \<^verbatim>\<open>QByteArray\<close> a list of bytes.
  \<^item> \<^verbatim>\<open>Symbols\<close> and \<^verbatim>\<open>Directives\<close> are \<^verbatim>\<open>std::set<QString>\<close>: a list kept sorted
    and free of duplicates, so that the iteration order of the set is the order of
    the list.
  \<^item> Sizes and offsets are \<open>nat\<close>: a \<^verbatim>\<open>QByteArray\<close> holds fewer than \<open>2^31\<close> bytes, so
    the conversions of \<^verbatim>\<open>program.size()\<close> to \<^verbatim>\<open>uint32_t\<close> never wrap.
  \<^item> \<^verbatim>\<open>std::variant<Error, T>\<close> is the sum \<open>Error + T\<close>, with \<open>Inl\<close> the error.
\<close>

type_synonym LineTokens = "string list"
type_synonym Symbols = "string list"
type_synonym Directives = "string list"
type_synonym QByteArray = "8 word list"

datatype Error = Error nat string

type_synonym Errors = "Error list"

record TokenizedSrcLine =
  sourceLine :: nat
  symbols :: Symbols
  directives :: Directives
  tokens :: LineTokens

type_synonym Program = "TokenizedSrcLine list"

type_synonym SymbolMap = "string \<rightharpoonup> nat"
type_synonym ReverseSymbolMap = "32 word \<rightharpoonup> string"

text \<open>
  \<^verbatim>\<open>FieldLinkRequest::field\<close> points to the field that asked for linkage. Pass 3
  \<^verbatim>\<open>dynamic_cast\<close>s it to \<^verbatim>\<open>Imm\<close> and calls \<^verbatim>\<open>applySymbolResolution(value, instr, offset)\<close>,
  which rewrites \<^verbatim>\<open>instr\<close> in place: an \<open>ImmField\<close> carries that function, any other
  field is \<open>OtherField\<close>.
\<close>

datatype Field = ImmField "nat \<Rightarrow> 32 word \<Rightarrow> nat \<Rightarrow> 32 word" | OtherField

record FieldLinkRequest =
  field :: Field
  symbol :: string

record InstrRes =
  instruction :: "32 word"
  linksWithSymbol :: FieldLinkRequest

text \<open>\<^verbatim>\<open>LinkRequest::sourceLine\<close> is named \<open>linkSourceLine\<close> here (the name \<open>sourceLine\<close>
  is the field of \<open>TokenizedSrcLine\<close>).\<close>

record LinkRequest =
  linkSourceLine :: nat
  offset :: nat
  fieldRequest :: FieldLinkRequest

type_synonym LinkRequests = "LinkRequest list"

record AssembleResult =
  program :: QByteArray
  errors :: Errors

text \<open>The fields \<^verbatim>\<open>program\<close> and \<^verbatim>\<open>errors\<close> of \<^verbatim>\<open>DisassembleResult\<close>.\<close>

record DisassembleResult =
  disProgram :: "string list"
  disErrors :: Errors

text \<open>
  What can leave a function other than through its return value: a C++ exception
  (\<^verbatim>\<open>std::runtime_error\<close>, \<^verbatim>\<open>std::bad_variant_access\<close>), a failed \<^verbatim>\<open>assert\<close>, and a read
  or write outside a byte array.
\<close>

datatype Failure = RuntimeError string | BadVariantAccess | AssertionFailed string | OutOfBounds

text \<open>
  The ISA-specific parts, which the header takes from the template parameter, from
  the tables filled by \<^verbatim>\<open>initialize\<close> and from virtual functions:
  \<^item> \<open>tokenize\<close>: the virtual \<^verbatim>\<open>tokenize\<close>; its body calls \<^verbatim>\<open>splitQuotes\<close> of
    \<^verbatim>\<open>lexerutilities.h\<close>, which is not shown, so the lexer is a parameter;
  \<^item> \<open>commentDelimiter\<close>: the pure virtual \<^verbatim>\<open>commentDelimiter()\<close>;
  \<^item> \<open>m_pseudoInstructionMap\<close>, \<open>m_instructionMap\<close>, \<open>m_directivesMap\<close>: the tables,
    each entry given by the one method the driver calls on it
    (\<^verbatim>\<open>expand\<close>, \<^verbatim>\<open>assemble\<close>, \<^verbatim>\<open>handle\<close>);
  \<^item> \<open>m_matcher\<close>: \<^verbatim>\<open>m_matcher->matchInstruction\<close>, returning an error or the matched
    instruction, given by its \<^verbatim>\<open>disassemble(word, address, reverseSymbolMap)\<close>;
  \<^item> \<open>assertsEnabled\<close>: whether the build keeps \<^verbatim>\<open>assert\<close> (no \<^verbatim>\<open>NDEBUG\<close>).
\<close>

type_synonym Instr = "32 word \<Rightarrow> 32 word \<Rightarrow> ReverseSymbolMap \<Rightarrow> Error + LineTokens"

record AssemblerBase =
  tokenize :: "string \<Rightarrow> Error + LineTokens"
  commentDelimiter :: char
  m_pseudoInstructionMap :: "string \<rightharpoonup> (TokenizedSrcLine \<Rightarrow> Error + LineTokens list option)"
  m_instructionMap :: "string \<rightharpoonup> (TokenizedSrcLine \<Rightarrow> Error + InstrRes)"
  m_directivesMap :: "string \<rightharpoonup> (TokenizedSrcLine \<Rightarrow> Error + QByteArray option)"
  m_matcher :: "32 word \<Rightarrow> Error + Instr"
  assertsEnabled :: bool

section \<open>\<^verbatim>\<open>std::set\<close> operations\<close>

definition set_insert :: "string \<Rightarrow> string list \<Rightarrow> string list" where
  "set_insert x xs = (if x \<in> set xs then xs else insort x xs)"

text \<open>\<^verbatim>\<open>dst.insert(src.begin(), src.end())\<close>\<close>

definition set_insert_range :: "string list \<Rightarrow> string list \<Rightarrow> string list" where
  "set_insert_range src dst = fold set_insert src dst"

section \<open>The line classifier\<close>

text \<open>
  \<^verbatim>\<open>splitSymbolsFromLine\<close>: the loop over the tokens, with its two early returns.
  \<^verbatim>\<open>token.contains(':')\<close> looks for a colon anywhere in the token, and
  \<^verbatim>\<open>QString(token).remove(':')\<close> removes every colon of it.
\<close>

fun splitSymbols_loop ::
  "LineTokens \<Rightarrow> nat \<Rightarrow> LineTokens \<Rightarrow> Symbols \<Rightarrow> bool \<Rightarrow> Error + (Symbols \<times> LineTokens)" where
  "splitSymbols_loop [] line remainingTokens syms symbolStillAllowed = Inr (syms, remainingTokens)"
| "splitSymbols_loop (token # rest) line remainingTokens syms symbolStillAllowed =
     (if CHR '':'' \<in> set token then
        if symbolStillAllowed then
          let cleanedSymbol = filter (\<lambda>c. c \<noteq> CHR '':'') token in
          if cleanedSymbol \<in> set syms then
            Inl (Error line (''Multiple definitions of symbol '' @ [CHR 0x27] @ cleanedSymbol @ [CHR 0x27]))
          else splitSymbols_loop rest line remainingTokens (set_insert cleanedSymbol syms) symbolStillAllowed
        else Inl (Error line ''Stray ':' in line'')
      else splitSymbols_loop rest line (remainingTokens @ [token]) syms False)"

definition splitSymbolsFromLine :: "LineTokens \<Rightarrow> nat \<Rightarrow> Error + (Symbols \<times> LineTokens)" where
  "splitSymbolsFromLine toks line =
     (if length toks = 0 then Inr ([], toks) else splitSymbols_loop toks line [] [] True)"

fun splitDirectives_loop ::
  "LineTokens \<Rightarrow> nat \<Rightarrow> LineTokens \<Rightarrow> Directives \<Rightarrow> bool \<Rightarrow> Error + (Directives \<times> LineTokens)" where
  "splitDirectives_loop [] line remainingTokens dirs directivesStillAllowed = Inr (dirs, remainingTokens)"
| "splitDirectives_loop (token # rest) line remainingTokens dirs directivesStillAllowed =
     (if token \<noteq> [] \<and> hd token = CHR ''.'' then
        if directivesStillAllowed then
          splitDirectives_loop rest line remainingTokens (set_insert token dirs) directivesStillAllowed
        else Inl (Error line ''Stray '.' in line'')
      else splitDirectives_loop rest line (remainingTokens @ [token]) dirs False)"

definition splitDirectivesFromLine :: "LineTokens \<Rightarrow> nat \<Rightarrow> Error + (Directives \<times> LineTokens)" where
  "splitDirectivesFromLine toks line =
     (if length toks = 0 then Inr ([], toks) else splitDirectives_loop toks line [] [] True)"

text \<open>\<^verbatim>\<open>splitCommentFromLine\<close>: the loop \<^verbatim>\<open>break\<close>s at the first token that contains
  the comment delimiter.\<close>

fun splitComment_loop :: "char \<Rightarrow> LineTokens \<Rightarrow> LineTokens \<Rightarrow> LineTokens" where
  "splitComment_loop d [] preCommentTokens = preCommentTokens"
| "splitComment_loop d (token # rest) preCommentTokens =
     (if d \<in> set token then preCommentTokens
      else splitComment_loop d rest (preCommentTokens @ [token]))"

definition splitCommentFromLine :: "AssemblerBase \<Rightarrow> LineTokens \<Rightarrow> nat \<Rightarrow> Error + LineTokens" where
  "splitCommentFromLine A toks line =
     (if length toks = 0 then Inr toks else Inr (splitComment_loop (commentDelimiter A) toks []))"

section \<open>Pass 0: tokenization and classification\<close>

text \<open>
  The first part of the loop body of \<^verbatim>\<open>pass0\<close>: the four \<^verbatim>\<open>runOperation\<close> steps that
  fill \<^verbatim>\<open>tsl\<close>. \<open>Inl e\<close> is the branch of \<^verbatim>\<open>runOperation\<close> that pushes \<open>e\<close> to
  \<^verbatim>\<open>errors\<close> and \<^verbatim>\<open>continue\<close>s. The comment is split from \<^verbatim>\<open>symbolsAndRest.second\<close>,
  as in the source; \<^verbatim>\<open>directivesAndRest.second\<close> is not used.
\<close>

definition pass0_line :: "AssemblerBase \<Rightarrow> nat \<Rightarrow> string \<Rightarrow> Error + TokenizedSrcLine" where
  "pass0_line A i line =
     (case tokenize A line of
        Inl e \<Rightarrow> Inl e
      | Inr toks \<Rightarrow>
          (case splitSymbolsFromLine toks i of
             Inl e \<Rightarrow> Inl e
           | Inr symbolsAndRest \<Rightarrow>
               (case splitDirectivesFromLine (snd symbolsAndRest) i of
                  Inl e \<Rightarrow> Inl e
                | Inr directivesAndRest \<Rightarrow>
                    (case splitCommentFromLine A (snd symbolsAndRest) i of
                       Inl e \<Rightarrow> Inl e
                     | Inr remainingTokens \<Rightarrow>
                         Inr \<lparr>sourceLine = i, symbols = fst symbolsAndRest,
                              directives = fst directivesAndRest, tokens = remainingTokens\<rparr>))))"

text \<open>The state of the loop is \<open>(errors, carry, tokenizedLines)\<close>.\<close>

type_synonym pass0_state = "Errors \<times> Symbols \<times> Program"

definition pass0_body :: "AssemblerBase \<Rightarrow> nat \<Rightarrow> string \<Rightarrow> pass0_state \<Rightarrow> pass0_state" where
  "pass0_body A i line st =
     (case st of (errs, carry, tokenizedLines) \<Rightarrow>
        if line = [] then st
        else
          (case pass0_line A i line of
             Inl e \<Rightarrow> (errs @ [e], carry, tokenizedLines)
           | Inr tsl \<Rightarrow>
               if symbols tsl \<noteq> [] \<and> tokens tsl = [] then
                 (errs, set_insert_range (symbols tsl) carry, tokenizedLines)
               else if tokens tsl \<noteq> [] then
                 (errs, [], tokenizedLines @ [tsl\<lparr>symbols := set_insert_range carry (symbols tsl)\<rparr>])
               else (errs, carry, tokenizedLines @ [tsl])))"

fun pass0_loop :: "AssemblerBase \<Rightarrow> nat \<Rightarrow> string list \<Rightarrow> pass0_state \<Rightarrow> pass0_state" where
  "pass0_loop A i [] st = st"
| "pass0_loop A i (line # rest) st = pass0_loop A (Suc i) rest (pass0_body A i line st)"

definition pass0 :: "AssemblerBase \<Rightarrow> string list \<Rightarrow> Errors + Program" where
  "pass0 A prog =
     (case pass0_loop A 0 prog ([], [], []) of (errs, carry, tokenizedLines) \<Rightarrow>
        if length errs \<noteq> 0 then Inl errs else Inr tokenizedLines)"

section \<open>Pass 1: pseudo-instruction expansion\<close>

definition expandPseudoOp :: "AssemblerBase \<Rightarrow> TokenizedSrcLine \<Rightarrow> Error + LineTokens list option" where
  "expandPseudoOp A line =
     (if tokens line = [] then Inr None
      else let opcode = hd (tokens line) in
        case m_pseudoInstructionMap A opcode of
          None \<Rightarrow> Inr None
        | Some pseudo \<Rightarrow> pseudo line)"

text \<open>The inner loop over \<^verbatim>\<open>eops\<close>, with its index \<open>j\<close>. A fresh \<^verbatim>\<open>TokenizedSrcLine\<close> has
  empty \<^verbatim>\<open>symbols\<close> and \<^verbatim>\<open>directives\<close>; only \<open>j = 0\<close> copies them from the line.\<close>

fun pass1_expand :: "TokenizedSrcLine \<Rightarrow> nat \<Rightarrow> LineTokens list \<Rightarrow> Program \<Rightarrow> Program" where
  "pass1_expand tokenizedLine j [] expandedLines = expandedLines"
| "pass1_expand tokenizedLine j (eop # rest) expandedLines =
     pass1_expand tokenizedLine (Suc j) rest
       (expandedLines @
         [\<lparr>sourceLine = sourceLine tokenizedLine,
           symbols = (if j = 0 then symbols tokenizedLine else []),
           directives = (if j = 0 then directives tokenizedLine else []),
           tokens = eop\<rparr>])"

definition pass1_body :: "AssemblerBase \<Rightarrow> TokenizedSrcLine \<Rightarrow> Errors \<times> Program \<Rightarrow> Errors \<times> Program" where
  "pass1_body A tokenizedLine st =
     (case st of (errs, expandedLines) \<Rightarrow>
        (case expandPseudoOp A tokenizedLine of
           Inl e \<Rightarrow> (errs @ [e], expandedLines)
         | Inr expandedOps \<Rightarrow>
             (case expandedOps of
                Some eops \<Rightarrow> (errs, pass1_expand tokenizedLine 0 eops expandedLines)
              | None \<Rightarrow> (errs, expandedLines @ [tokenizedLine]))))"

definition pass1 :: "AssemblerBase \<Rightarrow> Program \<Rightarrow> Errors + Program" where
  "pass1 A tokenizedLines =
     (case fold (pass1_body A) tokenizedLines ([], []) of (errs, expandedLines) \<Rightarrow>
        if length errs \<noteq> 0 then Inl errs else Inr expandedLines)"

section \<open>Pass 2: machine code translation\<close>

definition assembleDirective :: "AssemblerBase \<Rightarrow> TokenizedSrcLine \<Rightarrow> Error + QByteArray option" where
  "assembleDirective A line =
     (if tokens line = [] then
        Inl (Error (sourceLine line) ''Empty source lines should be impossible at this point'')
      else let directive = hd (tokens line) in
        case m_directivesMap A directive of
          None \<Rightarrow> Inr None
        | Some d \<Rightarrow> d line)"

text \<open>The out-parameter \<^verbatim>\<open>assembledWith\<close> of \<^verbatim>\<open>assembleInstruction\<close> is never read by the
  driver and is left out.\<close>

definition assembleInstruction :: "AssemblerBase \<Rightarrow> TokenizedSrcLine \<Rightarrow> Error + InstrRes" where
  "assembleInstruction A line =
     (if tokens line = [] then
        Inl (Error (sourceLine line) ''Empty source lines should be impossible at this point'')
      else let opcode = hd (tokens line) in
        case m_instructionMap A opcode of
          None \<Rightarrow> Inl (Error (sourceLine line) (''Unknown opcode '' @ [CHR 0x27] @ opcode @ [CHR 0x27]))
        | Some instr \<Rightarrow> instr line)"

text \<open>
  The \<^verbatim>\<open>reinterpret_cast\<close>s between \<^verbatim>\<open>uint32_t\<close> and four bytes follow the byte order
  of the host; it is taken to be little-endian.
\<close>

definition wordBytes :: "32 word \<Rightarrow> QByteArray" where
  "wordBytes w = [ucast w, ucast (drop_bit 8 w), ucast (drop_bit 16 w), ucast (drop_bit 24 w)]"

definition bytesWord :: "QByteArray \<Rightarrow> 32 word" where
  "bytesWord bs = foldr (\<lambda>b w. or (ucast b) (push_bit 8 w)) bs 0"

text \<open>The loop over \<^verbatim>\<open>line.symbols\<close>; its state is \<open>(errors, symbolMap)\<close>.\<close>

definition pass2_symbol :: "nat \<Rightarrow> nat \<Rightarrow> string \<Rightarrow> Errors \<times> SymbolMap \<Rightarrow> Errors \<times> SymbolMap" where
  "pass2_symbol srcLine instr_offset s st =
     (case st of (errs, symbolMap) \<Rightarrow>
        if symbolMap s \<noteq> None then
          (errs @ [Error srcLine (''Multiple definitions of symbol '' @ [CHR 0x27] @ s @ [CHR 0x27])], symbolMap)
        else (errs, symbolMap(s \<mapsto> instr_offset)))"

text \<open>The state of the loop of \<^verbatim>\<open>pass2\<close> is \<open>(program, errors, symbolMap, needsLinkage)\<close>.\<close>

type_synonym pass2_state = "QByteArray \<times> Errors \<times> SymbolMap \<times> LinkRequests"

definition pass2_body :: "AssemblerBase \<Rightarrow> TokenizedSrcLine \<Rightarrow> pass2_state \<Rightarrow> pass2_state" where
  "pass2_body A line st =
     (case st of (prog, errs0, symbolMap0, needsLinkage) \<Rightarrow>
        let instr_offset = length prog in
        (case fold (pass2_symbol (sourceLine line) instr_offset) (symbols line) (errs0, symbolMap0) of
           (errs, symbolMap) \<Rightarrow>
             (case assembleDirective A line of
                Inl e \<Rightarrow> (prog, errs @ [e], symbolMap, needsLinkage)
              | Inr directiveBytes \<Rightarrow>
                  (case directiveBytes of
                     None \<Rightarrow>
                       (case assembleInstruction A line of
                          Inl e \<Rightarrow> (prog, errs @ [e], symbolMap, needsLinkage)
                        | Inr machineCode \<Rightarrow>
                            (prog @ wordBytes (instruction machineCode), errs, symbolMap,
                             (if symbol (linksWithSymbol machineCode) \<noteq> [] then
                                needsLinkage @
                                  [\<lparr>linkSourceLine = sourceLine line, offset = instr_offset,
                                    fieldRequest = linksWithSymbol machineCode\<rparr>]
                              else needsLinkage)))
                   | Some bytes \<Rightarrow> (prog @ bytes, errs, symbolMap, needsLinkage)))))"

text \<open>\<^verbatim>\<open>pass2\<close> updates \<^verbatim>\<open>symbolMap\<close> and \<^verbatim>\<open>needsLinkage\<close> through references: they are
  returned beside the result.\<close>

definition pass2 ::
  "AssemblerBase \<Rightarrow> Program \<Rightarrow> SymbolMap \<Rightarrow> LinkRequests \<Rightarrow> (Errors + QByteArray) \<times> SymbolMap \<times> LinkRequests" where
  "pass2 A tokenizedLines symbolMap needsLinkage =
     (case fold (pass2_body A) tokenizedLines ([], [], symbolMap, needsLinkage) of
        (prog, errs, symbolMap', needsLinkage') \<Rightarrow>
          (if length errs \<noteq> 0 then Inl errs else Inr prog, symbolMap', needsLinkage'))"

section \<open>Pass 3: symbol linkage\<close>

text \<open>
  The loop of \<^verbatim>\<open>pass3\<close>; its state is \<open>(program, errors)\<close>. The word at the offset of
  the link request is read and written through \<^verbatim>\<open>reinterpret_cast\<close>: outside the
  byte array this is undefined behaviour in C++, here the failure \<open>OutOfBounds\<close>.
  The first \<^verbatim>\<open>assert\<close> is \<^verbatim>\<open>program.size() <= (linkRequest.offset + 4)\<close>, as written.
\<close>

definition writeWord :: "QByteArray \<Rightarrow> nat \<Rightarrow> 32 word \<Rightarrow> QByteArray" where
  "writeWord prog i w = take i prog @ wordBytes w @ drop (i + 4) prog"

fun pass3_loop ::
  "AssemblerBase \<Rightarrow> SymbolMap \<Rightarrow> LinkRequests \<Rightarrow> QByteArray \<times> Errors \<Rightarrow> Failure + (QByteArray \<times> Errors)" where
  "pass3_loop A symbolMap [] st = Inr st"
| "pass3_loop A symbolMap (linkRequest # rest) (prog, errs) =
     (let sym = symbol (fieldRequest linkRequest) in
      case symbolMap sym of
        None \<Rightarrow>
          pass3_loop A symbolMap rest
            (prog, errs @ [Error (linkSourceLine linkRequest) (''Unknown symbol '' @ [CHR 0x27] @ sym @ [CHR 0x27])])
      | Some symbolValue \<Rightarrow>
          if assertsEnabled A \<and> \<not> (length prog \<le> offset linkRequest + 4) then
            Inl (AssertionFailed ''Error: position of link request is not within program'')
          else if \<not> (offset linkRequest + 4 \<le> length prog) then Inl OutOfBounds
          else
            let instr = bytesWord (take 4 (drop (offset linkRequest) prog)) in
            (case field (fieldRequest linkRequest) of
               ImmField applySymbolResolution \<Rightarrow>
                 pass3_loop A symbolMap rest
                   (writeWord prog (offset linkRequest)
                      (applySymbolResolution symbolValue instr (offset linkRequest)), errs)
             | OtherField \<Rightarrow>
                 if assertsEnabled A then
                   Inl (AssertionFailed ''Something other than an immediate field has requested linkage?'')
                 else pass3_loop A symbolMap rest (writeWord prog (offset linkRequest) instr, errs)))"

text \<open>\<^verbatim>\<open>pass3\<close> patches \<^verbatim>\<open>program\<close> through a reference: the patched bytes are returned
  beside the result (\<open>Inr ()\<close> is \<^verbatim>\<open>NoPassResult\<close>).\<close>

definition pass3 ::
  "AssemblerBase \<Rightarrow> QByteArray \<Rightarrow> SymbolMap \<Rightarrow> LinkRequests \<Rightarrow> Failure + ((Errors + unit) \<times> QByteArray)" where
  "pass3 A prog symbolMap needsLinkage =
     (case pass3_loop A symbolMap needsLinkage (prog, []) of
        Inl f \<Rightarrow> Inl f
      | Inr (prog', errs) \<Rightarrow> Inr (if length errs \<noteq> 0 then Inl errs else Inr (), prog'))"

section \<open>The driver \<^verbatim>\<open>assemble\<close>\<close>

text \<open>
  The overload \<^verbatim>\<open>assemble(const QString&)\<close> only splits its argument at line breaks and
  calls the overload on the list of lines, which is the one modelled here.

  The macro \<^verbatim>\<open>runPass\<close>: when the pass returned \<^verbatim>\<open>Errors\<close>, they are appended to
  \<^verbatim>\<open>result.errors\<close> and \<^verbatim>\<open>result\<close> is returned at once; otherwise the rest of
  \<^verbatim>\<open>assemble\<close> (the continuation \<open>k\<close>) runs on the value of the pass.
\<close>

definition runPass ::
  "Errors + 'a \<Rightarrow> AssembleResult \<Rightarrow> ('a \<Rightarrow> Failure + AssembleResult) \<Rightarrow> Failure + AssembleResult" where
  "runPass passRes result k =
     (case passRes of
        Inl errs \<Rightarrow> Inr (result\<lparr>errors := errors result @ errs\<rparr>)
      | Inr v \<Rightarrow> k v)"

definition assemble :: "AssemblerBase \<Rightarrow> string list \<Rightarrow> Failure + AssembleResult" where
  "assemble A programLines =
     (let result = \<lparr>program = [], errors = []\<rparr> in
      runPass (pass0 A programLines) result (\<lambda>tokenizedLines.
      runPass (pass1 A tokenizedLines) result (\<lambda>expandedLines.
      (case pass2 A expandedLines Map.empty [] of (res2, symbolMap, needsLinkage) \<Rightarrow>
      runPass res2 result (\<lambda>prog.
      (case pass3 A prog symbolMap needsLinkage of
         Inl f \<Rightarrow> Inl f
       | Inr (res3, prog') \<Rightarrow>
      runPass res3 result (\<lambda>unused.
      Inr (result\<lparr>program := prog'\<rparr>))))))))"

section \<open>The disassembler\<close>

text \<open>\<^verbatim>\<open>std::get<T>(v)\<close> on a two-way variant throws \<^verbatim>\<open>std::bad_variant_access\<close> when \<open>v\<close>
  holds the other alternative.\<close>

definition get_Error :: "Error + 'a \<Rightarrow> Failure + Error" where
  "get_Error v = (case v of Inl e \<Rightarrow> Inr e | Inr x \<Rightarrow> Inl BadVariantAccess)"

definition get_value :: "Error + 'a \<Rightarrow> Failure + 'a" where
  "get_value v = (case v of Inl e \<Rightarrow> Inl BadVariantAccess | Inr x \<Rightarrow> Inr x)"

text \<open>\<^verbatim>\<open>QStringList::join(' ')\<close>\<close>

fun join :: "char \<Rightarrow> string list \<Rightarrow> string" where
  "join sep [] = []"
| "join sep [x] = x"
| "join sep (x # y # ys) = x @ [sep] @ join sep (y # ys)"

text \<open>
  The \<^verbatim>\<open>while\<close> loop of \<^verbatim>\<open>disassemble\<close>. In the handler of the first \<^verbatim>\<open>try\<close> (a match was
  found) the second \<^verbatim>\<open>try\<close> again reads \<^verbatim>\<open>std::get<Error>(match)\<close>, as written; its
  handler reads \<^verbatim>\<open>std::get<LineTokens>(tokens)\<close>, and what that throws is caught by
  nothing.
\<close>

function disassemble_loop ::
  "AssemblerBase \<Rightarrow> QByteArray \<Rightarrow> 32 word \<Rightarrow> nat \<Rightarrow> DisassembleResult \<Rightarrow> Failure + DisassembleResult" where
  "disassemble_loop A prog baseAddress i res =
     (if i < length prog then
        if \<not> (i + 4 \<le> length prog) then Inl OutOfBounds
        else
          let instructionWord = bytesWord (take 4 (drop i prog));
              match = m_matcher A instructionWord in
          (case get_Error match of
             Inr error \<Rightarrow>
               disassemble_loop A prog baseAddress (i + 4) (res\<lparr>disErrors := disErrors res @ [error]\<rparr>)
           | Inl caught \<Rightarrow>
               (case get_value match of
                  Inl f \<Rightarrow> Inl f
                | Inr instr \<Rightarrow>
                    let toks = instr instructionWord (baseAddress + of_nat i) Map.empty in
                    (case get_Error match of
                       Inr error \<Rightarrow>
                         disassemble_loop A prog baseAddress (i + 4)
                           (res\<lparr>disErrors := disErrors res @ [error]\<rparr>)
                     | Inl caught' \<Rightarrow>
                         (case get_value toks of
                            Inl f \<Rightarrow> Inl f
                          | Inr lineTokens \<Rightarrow>
                              disassemble_loop A prog baseAddress (i + 4)
                                (res\<lparr>disProgram := disProgram res @ [join CHR '' '' lineTokens]\<rparr>)))))
      else Inr res)"
  by pat_completeness auto
termination
  by (relation "measure (\<lambda>(A, prog, baseAddress, i, res). length prog - i)") auto

declare disassemble_loop.simps [simp del]

definition disassemble :: "AssemblerBase \<Rightarrow> QByteArray \<Rightarrow> 32 word \<Rightarrow> Failure + DisassembleResult" where
  "disassemble A prog baseAddress =
     (if length prog mod 4 \<noteq> 0 then
        Inl (RuntimeError ''Program instructions unaligned with instruction size'')
      else disassemble_loop A prog baseAddress 0 \<lparr>disProgram = [], disErrors = []\<rparr>)"

section \<open>Notions used in the statements\<close>

text \<open>What pass 0 stores for a source line: the tokens without a colon, cut at the
  first token that holds the comment delimiter, and as directives the colon-free tokens
  that begin with a dot.\<close>

definition lineShape :: "AssemblerBase \<Rightarrow> string \<Rightarrow> TokenizedSrcLine \<Rightarrow> bool" where
  "lineShape A line tsl \<longleftrightarrow>
     (\<exists>toks. tokenize A line = Inr toks \<and>
        tokens tsl = takeWhile (\<lambda>t. commentDelimiter A \<notin> set t) (filter (\<lambda>t. CHR '':'' \<notin> set t) toks) \<and>
        set (directives tsl) = {t \<in> set (filter (\<lambda>t. CHR '':'' \<notin> set t) toks). t \<noteq> [] \<and> hd t = CHR ''.''})"

text \<open>A line \<open>assembles\<close> when pass 2 gets bytes for it: its directive returns bytes,
  or it is no directive and its instruction is encoded.\<close>

definition assembles :: "AssemblerBase \<Rightarrow> TokenizedSrcLine \<Rightarrow> bool" where
  "assembles A line =
     (case assembleDirective A line of
        Inl e \<Rightarrow> False
      | Inr directiveBytes \<Rightarrow>
          (case directiveBytes of
             Some bytes \<Rightarrow> True
           | None \<Rightarrow> (case assembleInstruction A line of Inl e \<Rightarrow> False | Inr machineCode \<Rightarrow> True)))"








section \<open>A small instance\<close>

text \<open>
  A toy ISA on which the definitions above can be run: a lexer that splits at blanks,
  tabs and commas, the comment delimiter \<open>#\<close>, four instructions with fixed words
  (\<open>jal\<close> asks for linkage with its last token), one pseudo-instruction with two
  lines (an error without its operands), two directives, and a matcher that knows two words.
\<close>

fun demoSplit :: "string \<Rightarrow> string \<Rightarrow> string list" where
  "demoSplit [] cur = (if cur = [] then [] else [cur])"
| "demoSplit (c # cs) cur =
     (if c = CHR '' '' \<or> c = CHR '','' \<or> c = CHR 0x09 then
        (if cur = [] then demoSplit cs [] else cur # demoSplit cs [])
      else demoSplit cs (cur @ [c]))"

definition noLink :: FieldLinkRequest where
  "noLink = \<lparr>field = OtherField, symbol = []\<rparr>"

definition demoJalField :: Field where
  "demoJalField = ImmField (\<lambda>symbolValue instr off. or instr (push_bit 12 (of_nat symbolValue)))"

definition demoISA :: AssemblerBase where
  "demoISA =
     \<lparr>tokenize = (\<lambda>line. Inr (demoSplit line [])),
      commentDelimiter = CHR ''#'',
      m_pseudoInstructionMap =
        [''li'' \<mapsto> (\<lambda>line.
           if length (tokens line) < 3 then Inl (Error (sourceLine line) ''li: missing operand'')
           else Inr (Some [[''lui'', ''x5'', ''0''], [''addi'', ''x5'', ''x5'', ''0'']]))],
      m_instructionMap =
        [''nop'' \<mapsto> (\<lambda>line. Inr \<lparr>instruction = 0x13, linksWithSymbol = noLink\<rparr>),
         ''addi'' \<mapsto> (\<lambda>line. Inr \<lparr>instruction = 0x13, linksWithSymbol = noLink\<rparr>),
         ''lui'' \<mapsto> (\<lambda>line. Inr \<lparr>instruction = 0x37, linksWithSymbol = noLink\<rparr>),
         ''jal'' \<mapsto> (\<lambda>line. Inr \<lparr>instruction = 0x6F,
                        linksWithSymbol = \<lparr>field = demoJalField, symbol = last (tokens line)\<rparr>\<rparr>)],
      m_directivesMap =
        [''.text'' \<mapsto> (\<lambda>line. Inr (Some [])),
         ''.word'' \<mapsto> (\<lambda>line. Inr (Some [0, 0, 0, 0]))],
      m_matcher = (\<lambda>w.
        if w = 0x13 then Inr (\<lambda>w a rsm. Inr [''addi'', ''x0'', ''x0'', ''0''])
        else if w = 0x6F then Inr (\<lambda>w a rsm. Inl (Error (unat a) ''Invalid immediate''))
        else Inl (Error 0 ''Unknown instruction'')),
      assertsEnabled = False\<rparr>"

text \<open>The two lines that the instance reads from \<open>a: addi x1,x0,0\<close> and
  \<open>a: addi x2,x0,0\<close>.\<close>

definition demoA0 :: TokenizedSrcLine where
  "demoA0 = \<lparr>sourceLine = 0, symbols = [''a''], directives = [], tokens = [''addi'', ''x1'', ''x0'', ''0'']\<rparr>"

definition demoA1 :: TokenizedSrcLine where
  "demoA1 = \<lparr>sourceLine = 1, symbols = [''a''], directives = [], tokens = [''addi'', ''x2'', ''x0'', ''0'']\<rparr>"



text \<open>Three expanded lines of the instance, and the link request that pass 2 records
  for the first of them.\<close>

definition demoLines :: Program where
  "demoLines =
     [\<lparr>sourceLine = 0, symbols = [], directives = [], tokens = [''jal'', ''end'']\<rparr>,
      \<lparr>sourceLine = 1, symbols = [], directives = [], tokens = [''nop'']\<rparr>,
      \<lparr>sourceLine = 2, symbols = [''end''], directives = [], tokens = [''nop'']\<rparr>]"

definition demoLink :: LinkRequest where
  "demoLink = \<lparr>linkSourceLine = 0, offset = 0, fieldRequest = \<lparr>field = demoJalField, symbol = ''end''\<rparr>\<rparr>"



section \<open>The line classifier: what is split off\<close>

lemma set_set_insert: "set (set_insert x xs) = insert x (set xs)"
  by (auto simp: set_insert_def set_insort_key)


lemma splitSymbols_loop_Inr:
  "splitSymbols_loop toks line rem syms allowed = Inr (syms', rest') \<Longrightarrow>
     set syms' = set syms \<union> filter (\<lambda>c. c \<noteq> CHR '':'') ` {t \<in> set toks. CHR '':'' \<in> set t} \<and>
     rest' = rem @ filter (\<lambda>t. CHR '':'' \<notin> set t) toks"
proof (induction toks arbitrary: rem syms allowed)
  case Nil
  then show ?case by simp
next
  case (Cons t toks)
  show ?case
  proof (cases "CHR '':'' \<in> set t")
    case True
    with Cons.prems have step:
      "splitSymbols_loop toks line rem (set_insert (filter (\<lambda>c. c \<noteq> CHR '':'') t) syms) allowed = Inr (syms', rest')"
      by (simp add: Let_def split: if_splits)
    from Cons.IH [OF step] True show ?thesis
      by (auto simp: set_set_insert)
  next
    case False
    with Cons.prems have step: "splitSymbols_loop toks line (rem @ [t]) syms False = Inr (syms', rest')"
      by simp
    from Cons.IH [OF step] False show ?thesis
      by auto
  qed
qed

lemma splitDirectives_loop_Inr:
  "splitDirectives_loop toks line rem dirs allowed = Inr (dirs', rest') \<Longrightarrow>
     set dirs' = set dirs \<union> {t \<in> set toks. t \<noteq> [] \<and> hd t = CHR ''.''} \<and>
     rest' = rem @ filter (\<lambda>t. \<not> (t \<noteq> [] \<and> hd t = CHR ''.'')) toks"
proof (induction toks arbitrary: rem dirs allowed)
  case Nil
  then show ?case by simp
next
  case (Cons t toks)
  show ?case
  proof (cases "t \<noteq> [] \<and> hd t = CHR ''.''")
    case True
    with Cons.prems have step:
      "splitDirectives_loop toks line rem (set_insert t dirs) allowed = Inr (dirs', rest')"
      by (simp split: if_splits)
    from Cons.IH [OF step] True show ?thesis
      by (auto simp: set_set_insert)
  next
    case False
    with Cons.prems have step: "splitDirectives_loop toks line (rem @ [t]) dirs False = Inr (dirs', rest')"
      by auto
    from Cons.IH [OF step] False show ?thesis
      by auto
  qed
qed

lemma splitComment_loop_takeWhile:
  "splitComment_loop d toks pre = pre @ takeWhile (\<lambda>t. d \<notin> set t) toks"
  by (induction toks arbitrary: pre) auto


text \<open>
  C8 (as the code has it). \<^verbatim>\<open>splitSymbolsFromLine\<close> treats a token as a symbol
  definition exactly when the token contains a colon, wherever the colon stands:
  when it returns a pair, the symbols are the colon-containing tokens with every
  colon removed, and the remaining tokens are the tokens without a colon.
\<close>

theorem splitSymbolsFromLine_colon_anywhere:
  assumes "splitSymbolsFromLine toks line = Inr (syms, rest)"
  shows "set syms = filter (\<lambda>c. c \<noteq> CHR '':'') ` {t \<in> set toks. CHR '':'' \<in> set t} \<and>
         rest = filter (\<lambda>t. CHR '':'' \<notin> set t) toks"
proof (cases "toks = []")
  case True
  with assms show ?thesis by (simp add: splitSymbolsFromLine_def)
next
  case False
  with assms have "splitSymbols_loop toks line [] [] True = Inr (syms, rest)"
    by (simp add: splitSymbolsFromLine_def)
  from splitSymbols_loop_Inr [OF this] show ?thesis by simp
qed


text \<open>The same at a concrete line, whose first token has its colon in the middle.\<close>

theorem splitSymbolsFromLine_colon_anywhere_witness:
  "splitSymbolsFromLine [''a:b'', ''nop''] 0 = Inr ([''ab''], [''nop'']) \<and>
   set [''ab''] = filter (\<lambda>c. c \<noteq> CHR '':'') ` {t \<in> set [''a:b'', ''nop'']. CHR '':'' \<in> set t} \<and>
   [''nop''] = filter (\<lambda>t. CHR '':'' \<notin> set t) [''a:b'', ''nop'']"
proof -
  have h: "splitSymbolsFromLine [''a:b'', ''nop''] 0 = Inr ([''ab''], [''nop''])"
    by (simp add: splitSymbolsFromLine_def set_insert_def)
  from splitSymbolsFromLine_colon_anywhere [OF h] h show ?thesis by simp
qed

text \<open>
  C8 (as stated) fails: \<open>a:b\<close> has its colon in the middle and is taken as a symbol
  definition, and of \<open>c:d:\<close> every colon is removed, not only the trailing one.
\<close>

theorem splitSymbolsFromLine_counterexample:
  "splitSymbolsFromLine [''a:b'', ''c:d:''] 0 = Inr ([''ab'', ''cd''], [])"
  by (simp add: splitSymbolsFromLine_def set_insert_def)

section \<open>Pass 0: the stored tokens\<close>

lemma splitSymbolsFromLine_Inr:
  assumes "splitSymbolsFromLine toks line = Inr (syms, rest)"
  shows "set syms = filter (\<lambda>c. c \<noteq> CHR '':'') ` {t \<in> set toks. CHR '':'' \<in> set t} \<and>
         rest = filter (\<lambda>t. CHR '':'' \<notin> set t) toks"
proof (cases "toks = []")
  case True
  with assms show ?thesis by (simp add: splitSymbolsFromLine_def)
next
  case False
  with assms have "splitSymbols_loop toks line [] [] True = Inr (syms, rest)"
    by (simp add: splitSymbolsFromLine_def)
  from splitSymbols_loop_Inr [OF this] show ?thesis by simp
qed

lemma splitDirectivesFromLine_Inr:
  assumes "splitDirectivesFromLine toks line = Inr (dirs, rest)"
  shows "set dirs = {t \<in> set toks. t \<noteq> [] \<and> hd t = CHR ''.''}"
proof (cases "toks = []")
  case True
  with assms show ?thesis by (simp add: splitDirectivesFromLine_def)
next
  case False
  with assms have "splitDirectives_loop toks line [] [] True = Inr (dirs, rest)"
    by (simp add: splitDirectivesFromLine_def)
  from splitDirectives_loop_Inr [OF this] show ?thesis by simp
qed

lemma splitCommentFromLine_eq:
  "splitCommentFromLine A toks line = Inr (takeWhile (\<lambda>t. commentDelimiter A \<notin> set t) toks)"
  by (simp add: splitCommentFromLine_def splitComment_loop_takeWhile)

lemma pass0_line_Inr:
  assumes "pass0_line A i line = Inr tsl"
  shows "sourceLine tsl = i \<and> lineShape A line tsl"
proof -
  from assms obtain toks where tk: "tokenize A line = Inr toks"
    by (auto simp: pass0_line_def split: sum.splits)
  from assms tk obtain syms rest where sy: "splitSymbolsFromLine toks i = Inr (syms, rest)"
    by (auto simp: pass0_line_def split: sum.splits)
  from assms tk sy obtain dirs rest' where di: "splitDirectivesFromLine rest i = Inr (dirs, rest')"
    by (auto simp: pass0_line_def split: sum.splits)
  from assms tk sy di have tsl:
    "tsl = \<lparr>sourceLine = i, symbols = syms, directives = dirs,
            tokens = takeWhile (\<lambda>t. commentDelimiter A \<notin> set t) rest\<rparr>"
    by (simp add: pass0_line_def splitCommentFromLine_eq)
  from splitSymbolsFromLine_Inr [OF sy] have rest: "rest = filter (\<lambda>t. CHR '':'' \<notin> set t) toks"
    by simp
  from splitDirectivesFromLine_Inr [OF di] have dirs: "set dirs = {t \<in> set rest. t \<noteq> [] \<and> hd t = CHR ''.''}" .
  show ?thesis
    unfolding lineShape_def using tk tsl rest dirs by auto
qed

lemma pass0_body_shape:
  assumes inv: "\<forall>tsl \<in> set (snd (snd st)). P tsl"
    and step: "\<And>tsl syms. pass0_line A i line = Inr tsl \<Longrightarrow> P (tsl\<lparr>symbols := syms\<rparr>)"
  shows "\<forall>tsl \<in> set (snd (snd (pass0_body A i line st))). P tsl"
proof -
  obtain errs carry ls where st: "st = (errs, carry, ls)" by (cases st) auto
  have step': "P tsl" if "pass0_line A i line = Inr tsl" for tsl
    using step [OF that, of "symbols tsl"] by simp
  show ?thesis
    using inv step step' unfolding st pass0_body_def
    by (auto split: sum.splits)
qed


lemma lineShape_symbols_update [simp]:
  "lineShape A line (tsl\<lparr>symbols := syms\<rparr>) = lineShape A line tsl"
  by (simp add: lineShape_def)

lemma pass0_loop_shape:
  assumes "prog = pre @ xs"
    and "\<forall>tsl \<in> set (snd (snd st)). sourceLine tsl < length prog \<and> lineShape A (prog ! sourceLine tsl) tsl"
  shows "\<forall>tsl \<in> set (snd (snd (pass0_loop A (length pre) xs st))).
           sourceLine tsl < length prog \<and> lineShape A (prog ! sourceLine tsl) tsl"
  using assms
proof (induction xs arbitrary: pre st)
  case Nil
  then show ?case by simp
next
  case (Cons x xs)
  have at: "prog ! length pre = x" and lt: "length pre < length prog"
    using Cons.prems(1) by simp_all
  have body: "\<forall>tsl \<in> set (snd (snd (pass0_body A (length pre) x st))).
                sourceLine tsl < length prog \<and> lineShape A (prog ! sourceLine tsl) tsl"
  proof (rule pass0_body_shape [OF Cons.prems(2)])
    fix tsl syms
    assume "pass0_line A (length pre) x = Inr tsl"
    from pass0_line_Inr [OF this] at lt
    show "sourceLine (tsl\<lparr>symbols := syms\<rparr>) < length prog \<and>
          lineShape A (prog ! sourceLine (tsl\<lparr>symbols := syms\<rparr>)) (tsl\<lparr>symbols := syms\<rparr>)"
      by simp
  qed
  have "prog = (pre @ [x]) @ xs" using Cons.prems(1) by simp
  from Cons.IH [OF this body] show ?case by simp
qed

text \<open>
  C6 (as the code has it). For every line that the loop of pass 0 appends to the
  program (whether or not other lines give errors), the \<open>tokens\<close> field is the
  tokens of the source line with the symbol definitions (the tokens that contain a
  colon) removed and cut at the first token that contains the comment delimiter. The directive tokens are copied to \<open>directives\<close> and stay in
  \<open>tokens\<close>: the comment is split from \<^verbatim>\<open>symbolsAndRest.second\<close>, and
  \<^verbatim>\<open>assembleDirective\<close> later looks for the directive in \<^verbatim>\<open>line.tokens.at(0)\<close>.
\<close>

theorem pass0_tokens_keep_directives:
  assumes "pass0_loop A 0 prog ([], [], []) = (errs, carry, tokenizedLines)"
    and "tsl \<in> set tokenizedLines"
  shows "sourceLine tsl < length prog \<and>
         (\<exists>toks. tokenize A (prog ! sourceLine tsl) = Inr toks \<and>
            tokens tsl = takeWhile (\<lambda>t. commentDelimiter A \<notin> set t)
                           (filter (\<lambda>t. CHR '':'' \<notin> set t) toks) \<and>
            set (directives tsl) =
              {t \<in> set (filter (\<lambda>t. CHR '':'' \<notin> set t) toks). t \<noteq> [] \<and> hd t = CHR ''.''})"
proof -
  have "\<forall>tsl \<in> set (snd (snd (pass0_loop A (length ([]::string list)) prog ([], [], [])))).
          sourceLine tsl < length prog \<and> lineShape A (prog ! sourceLine tsl) tsl"
    by (rule pass0_loop_shape) simp_all
  with assms show ?thesis
    by (simp add: lineShape_def)
qed

text \<open>A line of the instance with a label, a directive and a comment.\<close>

theorem pass0_tokens_keep_directives_witness:
  "pass0_loop demoISA 0 [''a: .word 7 # x''] ([], [], []) =
     ([], [], [\<lparr>sourceLine = 0, symbols = [''a''], directives = [''.word''], tokens = [''.word'', ''7'']\<rparr>]) \<and>
   (\<exists>toks. tokenize demoISA ([''a: .word 7 # x''] ! 0) = Inr toks \<and>
      [''.word'', ''7''] = takeWhile (\<lambda>t. commentDelimiter demoISA \<notin> set t)
                           (filter (\<lambda>t. CHR '':'' \<notin> set t) toks) \<and>
      set [''.word''] =
        {t \<in> set (filter (\<lambda>t. CHR '':'' \<notin> set t) toks). t \<noteq> [] \<and> hd t = CHR ''.''})"
proof -
  have run: "pass0_loop demoISA 0 [''a: .word 7 # x''] ([], [], []) =
     ([], [], [\<lparr>sourceLine = 0, symbols = [''a''], directives = [''.word''], tokens = [''.word'', ''7'']\<rparr>])"
    by (simp add: pass0_body_def pass0_line_def demoISA_def splitSymbolsFromLine_def
        splitDirectivesFromLine_def splitCommentFromLine_def set_insert_def set_insert_range_def)
  from pass0_tokens_keep_directives [OF run, of "\<lparr>sourceLine = 0, symbols = [''a''], directives = [''.word''], tokens = [''.word'', ''7'']\<rparr>"]
  show ?thesis using run by simp
qed

text \<open>
  C6 (as stated) fails: for the line \<open>.text\<close> the directive token is in \<open>directives\<close>
  and still in \<open>tokens\<close>.
\<close>

theorem pass0_tokens_counterexample:
  "pass0 demoISA [''.text''] =
     Inr [\<lparr>sourceLine = 0, symbols = [], directives = [''.text''], tokens = [''.text'']\<rparr>]"
  by (simp add: pass0_def pass0_body_def pass0_line_def demoISA_def splitSymbolsFromLine_def
      splitDirectivesFromLine_def splitCommentFromLine_def set_insert_def set_insert_range_def)

section \<open>The driver: the first failing pass decides\<close>

lemma pass0_Inl_nonempty: "pass0 A ls = Inl es \<Longrightarrow> es \<noteq> []"
  by (auto simp: pass0_def split: prod.splits if_splits)

lemma pass1_Inl_nonempty: "pass1 A t = Inl es \<Longrightarrow> es \<noteq> []"
  by (auto simp: pass1_def split: prod.splits if_splits)

lemma pass2_Inl_nonempty: "pass2 A e sm0 nl0 = (Inl es, sm, nl) \<Longrightarrow> es \<noteq> []"
  by (auto simp: pass2_def split: prod.splits if_splits)

lemma pass3_Inl_nonempty: "pass3 A img sm nl = Inr (Inl es, img') \<Longrightarrow> es \<noteq> []"
  by (auto simp: pass3_def split: sum.splits prod.splits if_splits)

text \<open>
  C1. Whichever of the passes 0 to 3 is the first to return errors, \<^verbatim>\<open>assemble\<close> returns
  a result with no program bytes whose errors are exactly the errors of that pass;
  a pass that returns errors returns at least one. The rest of \<^verbatim>\<open>assemble\<close> is the
  continuation \<open>k\<close> of \<open>runPass\<close>, which is not called on errors (last conjunct), so
  no later pass runs.
\<close>

theorem assemble_short_circuit:
  "(\<forall>es. pass0 A ls = Inl es \<longrightarrow>
      es \<noteq> [] \<and> assemble A ls = Inr \<lparr>program = [], errors = es\<rparr>) \<and>
   (\<forall>t es. pass0 A ls = Inr t \<and> pass1 A t = Inl es \<longrightarrow>
      es \<noteq> [] \<and> assemble A ls = Inr \<lparr>program = [], errors = es\<rparr>) \<and>
   (\<forall>t e es sm nl. pass0 A ls = Inr t \<and> pass1 A t = Inr e \<and>
        pass2 A e Map.empty [] = (Inl es, sm, nl) \<longrightarrow>
      es \<noteq> [] \<and> assemble A ls = Inr \<lparr>program = [], errors = es\<rparr>) \<and>
   (\<forall>t e img sm nl es img'. pass0 A ls = Inr t \<and> pass1 A t = Inr e \<and>
        pass2 A e Map.empty [] = (Inr img, sm, nl) \<and> pass3 A img sm nl = Inr (Inl es, img') \<longrightarrow>
      es \<noteq> [] \<and> assemble A ls = Inr \<lparr>program = [], errors = es\<rparr>) \<and>
   (\<forall>es k. runPass (Inl es) \<lparr>program = [], errors = []\<rparr> k = Inr \<lparr>program = [], errors = es\<rparr>)"
proof (intro conjI allI impI)
  fix es assume "pass0 A ls = Inl es"
  then show "assemble A ls = Inr \<lparr>program = [], errors = es\<rparr>"
    by (simp add: assemble_def runPass_def)
next
  fix t es assume "pass0 A ls = Inr t \<and> pass1 A t = Inl es"
  then show "assemble A ls = Inr \<lparr>program = [], errors = es\<rparr>"
    by (simp add: assemble_def runPass_def)
next
  fix t e es sm nl
  assume "pass0 A ls = Inr t \<and> pass1 A t = Inr e \<and> pass2 A e Map.empty [] = (Inl es, sm, nl)"
  then show "assemble A ls = Inr \<lparr>program = [], errors = es\<rparr>"
    by (simp add: assemble_def runPass_def)
next
  fix t e img sm nl es img'
  assume "pass0 A ls = Inr t \<and> pass1 A t = Inr e \<and>
        pass2 A e Map.empty [] = (Inr img, sm, nl) \<and> pass3 A img sm nl = Inr (Inl es, img')"
  then show "assemble A ls = Inr \<lparr>program = [], errors = es\<rparr>"
    by (simp add: assemble_def runPass_def)
next
  fix es and k :: "'a \<Rightarrow> Failure + AssembleResult"
  show "runPass (Inl es) \<lparr>program = [], errors = []\<rparr> k = Inr \<lparr>program = [], errors = es\<rparr>"
    by (simp add: runPass_def)
qed (auto dest: pass0_Inl_nonempty pass1_Inl_nonempty pass2_Inl_nonempty pass3_Inl_nonempty)

text \<open>Runs of the instance, one for each pass that can fail.\<close>

lemmas demo_simps =
  pass0_def pass0_body_def pass0_line_def demoISA_def splitSymbolsFromLine_def
  splitDirectivesFromLine_def splitCommentFromLine_def set_insert_def set_insert_range_def
  pass1_def pass1_body_def expandPseudoOp_def
  pass2_def pass2_body_def pass2_symbol_def assembleDirective_def assembleInstruction_def
  noLink_def demoJalField_def wordBytes_def
  pass3_def

lemma demo_pass0_error:
  "pass0 demoISA [''nop a:''] = Inl [Error 0 ''Stray ':' in line'']"
  by (simp add: demo_simps)

lemma demo_pass1_error:
  "pass0 demoISA [''li''] = Inr [\<lparr>sourceLine = 0, symbols = [], directives = [], tokens = [''li'']\<rparr>]"
  "pass1 demoISA [\<lparr>sourceLine = 0, symbols = [], directives = [], tokens = [''li'']\<rparr>]
     = Inl [Error 0 ''li: missing operand'']"
  by (simp_all add: demo_simps)

lemma demo_pass2_error:
  "pass0 demoISA [''foo''] = Inr [\<lparr>sourceLine = 0, symbols = [], directives = [], tokens = [''foo'']\<rparr>]"
  "pass1 demoISA [\<lparr>sourceLine = 0, symbols = [], directives = [], tokens = [''foo'']\<rparr>]
     = Inr [\<lparr>sourceLine = 0, symbols = [], directives = [], tokens = [''foo'']\<rparr>]"
  "pass2 demoISA [\<lparr>sourceLine = 0, symbols = [], directives = [], tokens = [''foo'']\<rparr>] Map.empty []
     = (Inl [Error 0 (''Unknown opcode 'foo'' @ [CHR 0x27])], Map.empty, [])"
  by (simp_all add: demo_simps)

lemma demo_pass3_error:
  "pass0 demoISA [''jal x''] = Inr [\<lparr>sourceLine = 0, symbols = [], directives = [], tokens = [''jal'', ''x'']\<rparr>]"
  "pass1 demoISA [\<lparr>sourceLine = 0, symbols = [], directives = [], tokens = [''jal'', ''x'']\<rparr>]
     = Inr [\<lparr>sourceLine = 0, symbols = [], directives = [], tokens = [''jal'', ''x'']\<rparr>]"
  "pass2 demoISA [\<lparr>sourceLine = 0, symbols = [], directives = [], tokens = [''jal'', ''x'']\<rparr>] Map.empty []
     = (Inr [0x6F, 0, 0, 0], Map.empty,
        [\<lparr>linkSourceLine = 0, offset = 0, fieldRequest = \<lparr>field = demoJalField, symbol = ''x''\<rparr>\<rparr>])"
  "pass3 demoISA [0x6F, 0, 0, 0] Map.empty
        [\<lparr>linkSourceLine = 0, offset = 0, fieldRequest = \<lparr>field = demoJalField, symbol = ''x''\<rparr>\<rparr>]
     = Inr (Inl [Error 0 (''Unknown symbol 'x'' @ [CHR 0x27])], [0x6F, 0, 0, 0])"
  by (simp_all add: demo_simps)

theorem assemble_short_circuit_witness:
  "assemble demoISA [''nop a:''] = Inr \<lparr>program = [], errors = [Error 0 ''Stray ':' in line'']\<rparr> \<and>
   assemble demoISA [''li''] = Inr \<lparr>program = [], errors = [Error 0 ''li: missing operand'']\<rparr> \<and>
   assemble demoISA [''foo''] =
     Inr \<lparr>program = [], errors = [Error 0 (''Unknown opcode 'foo'' @ [CHR 0x27])]\<rparr> \<and>
   assemble demoISA [''jal x''] =
     Inr \<lparr>program = [], errors = [Error 0 (''Unknown symbol 'x'' @ [CHR 0x27])]\<rparr>"
  using assemble_short_circuit [where ?'a = unit, of demoISA "[''nop a:'']"] demo_pass0_error
    assemble_short_circuit [where ?'a = unit, of demoISA "[''li'']"] demo_pass1_error
    assemble_short_circuit [where ?'a = unit, of demoISA "[''foo'']"] demo_pass2_error
    assemble_short_circuit [where ?'a = unit, of demoISA "[''jal x'']"] demo_pass3_error
  by simp

section \<open>Pass 1: attribution of the expanded lines\<close>

lemma pass1_expand_acc:
  "pass1_expand l j eops acc = acc @ pass1_expand l j eops []"
proof (induction eops arbitrary: j acc)
  case Nil
  then show ?case by simp
next
  case (Cons eop eops)
  show ?case
    using Cons.IH [of "Suc j" "acc @ [x]" for x] Cons.IH [of "Suc j" "[x]" for x]
    by simp
qed

lemma length_pass1_expand: "length (pass1_expand l j eops []) = length eops"
proof (induction eops arbitrary: j)
  case Nil
  then show ?case by simp
next
  case (Cons eop eops)
  then show ?case
    using pass1_expand_acc [of l "Suc j" eops "[x]" for x] by simp
qed

lemma nth_pass1_expand:
  "k < length eops \<Longrightarrow>
   pass1_expand l j eops [] ! k =
     \<lparr>sourceLine = sourceLine l,
      symbols = (if j + k = 0 then symbols l else []),
      directives = (if j + k = 0 then directives l else []),
      tokens = eops ! k\<rparr>"
proof (induction eops arbitrary: j k)
  case Nil
  then show ?case by simp
next
  case (Cons eop eops)
  show ?case
  proof (cases k)
    case 0
    then show ?thesis
      using pass1_expand_acc [of l "Suc j" eops "[x]" for x] by simp
  next
    case (Suc k')
    with Cons.prems have "k' < length eops" by simp
    from Cons.IH [OF this, of "Suc j"] Suc show ?thesis
      using pass1_expand_acc [of l "Suc j" eops "[x]" for x] by simp
  qed
qed

lemma pass1_body_shift:
  "pass1_body A l (errs, out) =
     (errs @ fst (pass1_body A l ([], [])), out @ snd (pass1_body A l ([], [])))"
  using pass1_expand_acc [of l 0 _ out]
  by (simp add: pass1_body_def split: sum.splits option.splits)

lemma pass1_fold_shift:
  "fold (pass1_body A) ls (errs, out) =
     (errs @ fst (fold (pass1_body A) ls ([], [])), out @ snd (fold (pass1_body A) ls ([], [])))"
proof (induction ls arbitrary: errs out)
  case Nil
  then show ?case by simp
next
  case (Cons l ls)
  obtain e1 o1 where b: "pass1_body A l ([], []) = (e1, o1)" by (cases "pass1_body A l ([], [])") auto
  have "fold (pass1_body A) (l # ls) (errs, out) = fold (pass1_body A) ls (errs @ e1, out @ o1)"
    using pass1_body_shift [of A l errs out] b by simp
  also have "\<dots> = ((errs @ e1) @ fst (fold (pass1_body A) ls ([], [])),
                   (out @ o1) @ snd (fold (pass1_body A) ls ([], [])))"
    by (rule Cons.IH)
  finally have lhs: "fold (pass1_body A) (l # ls) (errs, out) =
      (errs @ e1 @ fst (fold (pass1_body A) ls ([], [])), out @ o1 @ snd (fold (pass1_body A) ls ([], [])))"
    by simp
  have "fold (pass1_body A) (l # ls) ([], []) = fold (pass1_body A) ls (e1, o1)"
    using b by simp
  also have "\<dots> = (e1 @ fst (fold (pass1_body A) ls ([], [])), o1 @ snd (fold (pass1_body A) ls ([], [])))"
    by (rule Cons.IH)
  finally show ?case using lhs by simp
qed

lemma pass1_append:
  "fold (pass1_body A) (xs @ ys) ([], []) =
     (fst (fold (pass1_body A) xs ([], [])) @ fst (fold (pass1_body A) ys ([], [])),
      snd (fold (pass1_body A) xs ([], [])) @ snd (fold (pass1_body A) ys ([], [])))"
proof -
  obtain e1 o1 where a: "fold (pass1_body A) xs ([], []) = (e1, o1)"
    by (cases "fold (pass1_body A) xs ([], [])") auto
  show ?thesis
    using pass1_fold_shift [of A ys e1 o1] a by simp
qed

lemma pass1_append_Inr:
  assumes "pass1 A (xs @ ys) = Inr out"
  shows "\<exists>a b. pass1 A xs = Inr a \<and> pass1 A ys = Inr b \<and> out = a @ b"
  using assms unfolding pass1_def pass1_append
  by (auto split: prod.splits if_splits)

lemma pass1_single_expanded:
  assumes "expandPseudoOp A l = Inr (Some eops)"
  shows "pass1 A [l] = Inr (pass1_expand l 0 eops [])"
  using assms by (simp add: pass1_def pass1_body_def)

text \<open>
  C9. When pass 1 succeeds on a program and the line \<open>l\<close> of it is a pseudo-instruction
  that expands to \<open>N \<ge> 1\<close> lines, the output holds, between the lines of what precedes
  \<open>l\<close> and of what follows it, exactly \<open>N\<close> lines for \<open>l\<close>: the \<open>j\<close>-th has the tokens
  of the \<open>j\<close>-th expansion and the source line index of \<open>l\<close>, the first has the symbols
  and directives of \<open>l\<close>, every later one has none.
\<close>

theorem pass1_attribution:
  assumes run: "pass1 A (pre @ [l] @ post) = Inr out"
    and exp: "expandPseudoOp A l = Inr (Some eops)"
    and ne: "eops \<noteq> []"
  shows "\<exists>a b ls. pass1 A pre = Inr a \<and> pass1 A post = Inr b \<and> out = a @ ls @ b \<and>
           length ls = length eops \<and>
           symbols (hd ls) = symbols l \<and> directives (hd ls) = directives l \<and>
           (\<forall>j < length ls. sourceLine (ls ! j) = sourceLine l \<and> tokens (ls ! j) = eops ! j \<and>
              (0 < j \<longrightarrow> symbols (ls ! j) = [] \<and> directives (ls ! j) = []))"
proof -
  from pass1_append_Inr [OF run] obtain a r where a: "pass1 A pre = Inr a"
    and r: "pass1 A ([l] @ post) = Inr r" and out: "out = a @ r" by blast
  from pass1_append_Inr [OF r] obtain ls b where ls: "pass1 A [l] = Inr ls"
    and b: "pass1 A post = Inr b" and r': "r = ls @ b" by blast
  from ls pass1_single_expanded [OF exp] have ls_eq: "ls = pass1_expand l 0 eops []" by simp
  have len: "length ls = length eops" by (simp add: ls_eq length_pass1_expand)
  with ne have "ls \<noteq> []" by auto
  then have hd: "hd ls = ls ! 0" by (simp add: hd_conv_nth)
  have nth: "\<forall>j < length ls. sourceLine (ls ! j) = sourceLine l \<and> tokens (ls ! j) = eops ! j \<and>
              (0 < j \<longrightarrow> symbols (ls ! j) = [] \<and> directives (ls ! j) = [])"
    using len by (simp add: ls_eq nth_pass1_expand)
  have "symbols (hd ls) = symbols l \<and> directives (hd ls) = directives l"
    using ne len unfolding hd by (simp add: ls_eq nth_pass1_expand)
  with a b out r' len nth show ?thesis by auto
qed

lemma demo_li:
  "expandPseudoOp demoISA \<lparr>sourceLine = 1, symbols = [''a''], directives = [], tokens = [''li'', ''x5'', ''0'']\<rparr>
     = Inr (Some [[''lui'', ''x5'', ''0''], [''addi'', ''x5'', ''x5'', ''0'']])"
  "pass1 demoISA ([\<lparr>sourceLine = 0, symbols = [], directives = [], tokens = [''nop'']\<rparr>] @
      [\<lparr>sourceLine = 1, symbols = [''a''], directives = [], tokens = [''li'', ''x5'', ''0'']\<rparr>] @ []) =
    Inr [\<lparr>sourceLine = 0, symbols = [], directives = [], tokens = [''nop'']\<rparr>,
         \<lparr>sourceLine = 1, symbols = [''a''], directives = [], tokens = [''lui'', ''x5'', ''0'']\<rparr>,
         \<lparr>sourceLine = 1, symbols = [], directives = [], tokens = [''addi'', ''x5'', ''x5'', ''0'']\<rparr>]"
  by (simp_all add: demo_simps)

theorem pass1_attribution_witness:
  "\<exists>a b ls. pass1 demoISA [\<lparr>sourceLine = 0, symbols = [], directives = [], tokens = [''nop'']\<rparr>] = Inr a \<and>
      pass1 demoISA [] = Inr b \<and>
      [\<lparr>sourceLine = 0, symbols = [], directives = [], tokens = [''nop'']\<rparr>,
       \<lparr>sourceLine = 1, symbols = [''a''], directives = [], tokens = [''lui'', ''x5'', ''0'']\<rparr>,
       \<lparr>sourceLine = 1, symbols = [], directives = [], tokens = [''addi'', ''x5'', ''x5'', ''0'']\<rparr>]
        = a @ ls @ b \<and>
      length ls = 2 \<and> symbols (hd ls) = [''a''] \<and> directives (hd ls) = [] \<and>
      (\<forall>j < length ls. sourceLine (ls ! j) = 1 \<and>
         tokens (ls ! j) = [[''lui'', ''x5'', ''0''], [''addi'', ''x5'', ''x5'', ''0'']] ! j \<and>
         (0 < j \<longrightarrow> symbols (ls ! j) = [] \<and> directives (ls ! j) = []))"
  using pass1_attribution [OF demo_li(2) demo_li(1)] by (simp add: numeral_2_eq_2)

section \<open>The disassembler\<close>

lemma disassemble_loop_failed_instr:
  assumes "i + 4 \<le> length prog"
    and "m_matcher A (bytesWord (take 4 (drop i prog))) = Inr instr"
    and "instr (bytesWord (take 4 (drop i prog))) (baseAddress + of_nat i) Map.empty = Inl e"
  shows "disassemble_loop A prog baseAddress i res = Inl BadVariantAccess"
  using assms
  by (subst disassemble_loop.simps) (simp add: get_Error_def get_value_def)

lemma bytesWord_demo: "bytesWord [0x6F, 0, 0, 0] = 0x6F" "bytesWord [0x13, 0, 0, 0] = 0x13"
  by (simp_all add: bytesWord_def)

text \<open>
  C5 (the code at a failing input). The word \<open>0x6F\<close> matches an instruction of the
  instance whose \<^verbatim>\<open>disassemble\<close> returns an error. \<^verbatim>\<open>AssemblerBase::disassemble\<close> does not add
  an error to the result and go on to the second word: \<^verbatim>\<open>std::bad_variant_access\<close> leaves
  it.
\<close>

theorem disassemble_failure_escapes:
  "disassemble demoISA [0x6F, 0, 0, 0, 0x13, 0, 0, 0] 0 = Inl BadVariantAccess"
proof -
  have "disassemble_loop demoISA [0x6F, 0, 0, 0, 0x13, 0, 0, 0] 0 0 \<lparr>disProgram = [], disErrors = []\<rparr>
          = Inl BadVariantAccess"
    by (rule disassemble_loop_failed_instr
          [where e = "Error 0 ''Invalid immediate''"
             and instr = "\<lambda>w a rsm. Inl (Error (unat a) ''Invalid immediate'')"])
       (simp_all add: bytesWord_demo demoISA_def)
  then show ?thesis by (simp add: disassemble_def)
qed










section \<open>Lines without tokens reach pass 2\<close>

lemma empty_tokens_line_error:
  assumes "line \<noteq> []" and "pass0_line A 0 line = Inr tsl" and "symbols tsl = []" and "tokens tsl = []"
  shows "assemble A [line] =
     Inr \<lparr>program = [], errors = [Error 0 ''Empty source lines should be impossible at this point'']\<rparr>"
proof -
  have sl: "sourceLine tsl = 0" using pass0_line_Inr [OF assms(2)] by simp
  have p0: "pass0 A [line] = Inr [tsl]"
    using assms by (simp add: pass0_def pass0_body_def)
  have p1: "pass1 A [tsl] = Inr [tsl]"
    using assms by (simp add: pass1_def pass1_body_def expandPseudoOp_def)
  have p2: "pass2 A [tsl] Map.empty [] =
      (Inl [Error 0 ''Empty source lines should be impossible at this point''], Map.empty, [])"
    using assms sl by (simp add: pass2_def pass2_body_def assembleDirective_def)
  show ?thesis
    using p0 p1 p2 by (simp add: assemble_def runPass_def)
qed

text \<open>
  C7 (the code at a failing input). A program of the single comment line \<open># hello\<close>
  does not assemble to zero bytes without errors: pass 0 stores the line with no
  tokens, and pass 2 reports it.
\<close>

theorem comment_only_line_error:
  "assemble demoISA [''# hello''] =
     Inr \<lparr>program = [], errors = [Error 0 ''Empty source lines should be impossible at this point'']\<rparr>"
proof (rule empty_tokens_line_error)
  show "pass0_line demoISA 0 ''# hello'' = Inr \<lparr>sourceLine = 0, symbols = [], directives = [], tokens = []\<rparr>"
    by (simp add: demo_simps)
qed simp_all

section \<open>Pass 2: what the loop preserves\<close>

subsection \<open>The loop over the symbols of a line\<close>

lemma pass2_symbol_cases:
  "pass2_symbol sl off s (errs, sm) =
     (if sm s \<noteq> None
      then (errs @ [Error sl (''Multiple definitions of symbol '' @ [CHR 0x27] @ s @ [CHR 0x27])], sm)
      else (errs, sm(s \<mapsto> off)))"
  by (simp add: pass2_symbol_def)

lemma symbols_fold_errs:
  "fold (pass2_symbol sl off) syms (errs, sm) = (errs', sm') \<Longrightarrow> \<exists>e. errs' = errs @ e"
proof (induction syms arbitrary: errs sm)
  case Nil
  then show ?case by simp
next
  case (Cons x xs)
  then show ?case
    by (cases "sm x") (fastforce simp: pass2_symbol_cases)+
qed

lemma symbols_fold_keeps:
  "fold (pass2_symbol sl off) syms (errs, sm) = (errs', sm') \<Longrightarrow> sm s = Some v \<Longrightarrow> sm' s = Some v"
proof (induction syms arbitrary: errs sm)
  case Nil
  then show ?case by simp
next
  case (Cons x xs)
  show ?case
  proof (cases "sm x")
    case None
    with Cons.prems have "fold (pass2_symbol sl off) xs (errs, sm(x \<mapsto> off)) = (errs', sm')"
      by (simp add: pass2_symbol_cases)
    moreover have "(sm(x \<mapsto> off)) s = Some v" using None Cons.prems(2) by auto
    ultimately show ?thesis by (rule Cons.IH)
  next
    case (Some w)
    with Cons.prems have "fold (pass2_symbol sl off) xs
        (errs @ [Error sl (''Multiple definitions of symbol '' @ [CHR 0x27] @ x @ [CHR 0x27])], sm) = (errs', sm')"
      by (simp add: pass2_symbol_cases)
    then show ?thesis using Cons.prems(2) by (rule Cons.IH)
  qed
qed

lemma symbols_fold_duplicate:
  "fold (pass2_symbol sl off) syms (errs, sm) = (errs', sm') \<Longrightarrow> s \<in> set syms \<Longrightarrow> sm s = Some v \<Longrightarrow>
     Error sl (''Multiple definitions of symbol '' @ [CHR 0x27] @ s @ [CHR 0x27]) \<in> set errs'"
proof (induction syms arbitrary: errs sm)
  case Nil
  then show ?case by simp
next
  case (Cons x xs)
  obtain errs1 sm1 where step: "pass2_symbol sl off x (errs, sm) = (errs1, sm1)"
    by (cases "pass2_symbol sl off x (errs, sm)") auto
  with Cons.prems(1) have rest: "fold (pass2_symbol sl off) xs (errs1, sm1) = (errs', sm')" by simp
  have keep: "sm1 s = Some v"
    using step Cons.prems(3) by (auto simp: pass2_symbol_cases split: if_splits)
  show ?case
  proof (cases "s = x")
    case True
    with step Cons.prems(3) have "Error sl (''Multiple definitions of symbol '' @ [CHR 0x27] @ s @ [CHR 0x27]) \<in> set errs1"
      by (auto simp: pass2_symbol_cases)
    with symbols_fold_errs [OF rest] show ?thesis by auto
  next
    case False
    with Cons.prems(2) have "s \<in> set xs" by simp
    from Cons.IH [OF rest this keep] show ?thesis .
  qed
qed

lemma symbols_fold_binds:
  "fold (pass2_symbol sl off) syms (errs, sm) = (errs, sm') \<Longrightarrow> s \<in> set syms \<Longrightarrow> sm' s = Some off"
proof (induction syms arbitrary: sm)
  case Nil
  then show ?case by simp
next
  case (Cons x xs)
  obtain errs1 sm1 where step: "pass2_symbol sl off x (errs, sm) = (errs1, sm1)"
    by (cases "pass2_symbol sl off x (errs, sm)") auto
  with Cons.prems(1) have rest: "fold (pass2_symbol sl off) xs (errs1, sm1) = (errs, sm')" by simp
  from symbols_fold_errs [OF rest] obtain e where e: "errs = errs1 @ e" by blast
  from step have "\<exists>e1. errs1 = errs @ e1" by (auto simp: pass2_symbol_cases split: if_splits)
  with e have errs1: "errs1 = errs" by auto
  with step have sm1: "sm1 = sm(x \<mapsto> off)"
    by (auto simp: pass2_symbol_cases split: if_splits)
  show ?case
  proof (cases "s = x")
    case True
    with sm1 have "sm1 s = Some off" by simp
    from symbols_fold_keeps [OF rest this] show ?thesis .
  next
    case False
    with Cons.prems(2) have "s \<in> set xs" by simp
    from Cons.IH [OF rest [unfolded errs1] this] show ?thesis .
  qed
qed

subsection \<open>One line of pass 2\<close>

lemma pass2_body_facts:
  assumes "pass2_body A l (prog, errs, sm, nl) = (prog', errs', sm', nl')"
  shows "(\<exists>bytes. prog' = prog @ bytes)"
    and "(\<exists>e. errs' = errs @ e)"
    and "sm s = Some v \<Longrightarrow> sm' s = Some v"
    and "s \<in> set (symbols l) \<Longrightarrow> sm s = Some v \<Longrightarrow>
           Error (sourceLine l) (''Multiple definitions of symbol '' @ [CHR 0x27] @ s @ [CHR 0x27]) \<in> set errs'"
    and "errs' = errs \<Longrightarrow> s \<in> set (symbols l) \<Longrightarrow> sm' s = Some (length prog)"
    and "(\<forall>r \<in> set nl. offset r + 4 \<le> length prog) \<Longrightarrow> (\<forall>r \<in> set nl'. offset r + 4 \<le> length prog')"
proof -
  obtain errs1 sm1 where syms:
    "fold (pass2_symbol (sourceLine l) (length prog)) (symbols l) (errs, sm) = (errs1, sm1)"
    by (cases "fold (pass2_symbol (sourceLine l) (length prog)) (symbols l) (errs, sm)") auto
  from assms syms have sm': "sm' = sm1"
    by (auto simp: pass2_body_def Let_def split: sum.splits option.splits)
  from assms syms have errs': "errs' = errs1 \<or> (\<exists>e. errs' = errs1 @ [e])"
    by (auto simp: pass2_body_def Let_def split: sum.splits option.splits)
  from symbols_fold_errs [OF syms] obtain e1 where e1: "errs1 = errs @ e1" by blast
  show "\<exists>bytes. prog' = prog @ bytes"
    using assms syms by (auto simp: pass2_body_def Let_def split: sum.splits option.splits)
  show "\<exists>e. errs' = errs @ e" using errs' e1 by auto
  show "sm s = Some v \<Longrightarrow> sm' s = Some v"
    using symbols_fold_keeps [OF syms] sm' by simp
  show "s \<in> set (symbols l) \<Longrightarrow> sm s = Some v \<Longrightarrow>
           Error (sourceLine l) (''Multiple definitions of symbol '' @ [CHR 0x27] @ s @ [CHR 0x27]) \<in> set errs'"
    using symbols_fold_duplicate [OF syms] errs' by auto
  show "sm' s = Some (length prog)" if same: "errs' = errs" and s: "s \<in> set (symbols l)"
  proof -
    from same errs' e1 have "errs1 = errs" by auto
    with syms have "fold (pass2_symbol (sourceLine l) (length prog)) (symbols l) (errs, sm) = (errs, sm1)"
      by simp
    from symbols_fold_binds [OF this s] sm' show ?thesis by simp
  qed
  show "\<forall>r \<in> set nl'. offset r + 4 \<le> length prog'" if inv: "\<forall>r \<in> set nl. offset r + 4 \<le> length prog"
  proof
    fix r assume r: "r \<in> set nl'"
    from assms syms have grow: "length prog \<le> length prog'"
      by (auto simp: pass2_body_def Let_def split: sum.splits option.splits)
    from assms syms have "nl' = nl \<or>
        (\<exists>req. nl' = nl @ [req] \<and> offset req = length prog \<and> length prog' = length prog + 4)"
      by (auto simp: pass2_body_def Let_def wordBytes_def split: sum.splits option.splits if_splits)
    with r consider "r \<in> set nl" | "offset r = length prog" "length prog' = length prog + 4"
      by auto
    then show "offset r + 4 \<le> length prog'"
    proof cases
      case 1
      with inv have "offset r + 4 \<le> length prog" by blast
      with grow show ?thesis by linarith
    next
      case 2
      then show ?thesis by simp
    qed
  qed
qed

subsection \<open>The loop of pass 2\<close>


lemma pass2_fold_errs:
  "fold (pass2_body A) ls (prog, errs, sm, nl) = (prog', errs', sm', nl') \<Longrightarrow> \<exists>e. errs' = errs @ e"
proof (induction ls arbitrary: prog errs sm nl)
  case Nil
  then show ?case by simp
next
  case (Cons l ls)
  obtain p1 e1 s1 n1 where step: "pass2_body A l (prog, errs, sm, nl) = (p1, e1, s1, n1)"
    by (cases "pass2_body A l (prog, errs, sm, nl)") auto
  with Cons.prems have rest: "fold (pass2_body A) ls (p1, e1, s1, n1) = (prog', errs', sm', nl')"
    by simp
  from Cons.IH [OF rest] pass2_body_facts(2) [OF step] show ?case by auto
qed

lemma pass2_fold_keeps:
  "fold (pass2_body A) ls (prog, errs, sm, nl) = (prog', errs', sm', nl') \<Longrightarrow>
     sm s = Some v \<Longrightarrow> sm' s = Some v"
proof (induction ls arbitrary: prog errs sm nl)
  case Nil
  then show ?case by simp
next
  case (Cons l ls)
  obtain p1 e1 s1 n1 where step: "pass2_body A l (prog, errs, sm, nl) = (p1, e1, s1, n1)"
    by (cases "pass2_body A l (prog, errs, sm, nl)") auto
  with Cons.prems have rest: "fold (pass2_body A) ls (p1, e1, s1, n1) = (prog', errs', sm', nl')"
    by simp
  from pass2_body_facts(3) [OF step Cons.prems(2)] have "s1 s = Some v" .
  from Cons.IH [OF rest this] show ?case .
qed

lemma pass2_fold_links:
  "fold (pass2_body A) ls (prog, errs, sm, nl) = (prog', errs', sm', nl') \<Longrightarrow>
     \<forall>r \<in> set nl. offset r + 4 \<le> length prog \<Longrightarrow> \<forall>r \<in> set nl'. offset r + 4 \<le> length prog'"
proof (induction ls arbitrary: prog errs sm nl)
  case Nil
  then show ?case by simp
next
  case (Cons l ls)
  obtain p1 e1 s1 n1 where step: "pass2_body A l (prog, errs, sm, nl) = (p1, e1, s1, n1)"
    by (cases "pass2_body A l (prog, errs, sm, nl)") auto
  with Cons.prems have rest: "fold (pass2_body A) ls (p1, e1, s1, n1) = (prog', errs', sm', nl')"
    by simp
  from pass2_body_facts(6) [OF step Cons.prems(2)] have "\<forall>r \<in> set n1. offset r + 4 \<le> length p1" .
  from Cons.IH [OF rest this] show ?case .
qed

section \<open>Link requests lie inside the code image\<close>

lemma length_wordBytes [simp]: "length (wordBytes w) = 4"
  by (simp add: wordBytes_def)

lemma length_writeWord: "i + 4 \<le> length prog \<Longrightarrow> length (writeWord prog i w) = length prog"
  by (simp add: writeWord_def)

lemma pass3_loop_in_bounds:
  assumes "\<forall>r \<in> set nl. offset r + 4 \<le> length prog"
  shows "pass3_loop A sm nl (prog, errs) \<noteq> Inl OutOfBounds \<and>
         (\<forall>prog' errs'. pass3_loop A sm nl (prog, errs) = Inr (prog', errs') \<longrightarrow> length prog' = length prog)"
  using assms
proof (induction nl arbitrary: prog errs)
  case Nil
  then show ?case by simp
next
  case (Cons r nl)
  from Cons.prems have r: "offset r + 4 \<le> length prog"
    and rest: "\<forall>r \<in> set nl. offset r + 4 \<le> length prog" by simp_all
  have rest': "\<forall>r' \<in> set nl. offset r' + 4 \<le> length (writeWord prog (offset r) w)" for w
    using rest r by (simp add: length_writeWord)
  show ?case
  proof (cases "sm (symbol (fieldRequest r))")
    case None
    then show ?thesis
      using Cons.IH [OF rest] by (simp add: Let_def)
  next
    case (Some symbolValue)
    show ?thesis
    proof (cases "field (fieldRequest r)")
      case (ImmField f)
      then show ?thesis
        using Some r Cons.IH [OF rest'] by (simp add: Let_def length_writeWord)
    next
      case OtherField
      then show ?thesis
        using Some r Cons.IH [OF rest'] by (simp add: Let_def length_writeWord)
    qed
  qed
qed

text \<open>
  C3. When the loop of pass 2 ends (with or without errors), every link request in
  \<^verbatim>\<open>needsLinkage\<close> has \<open>offset + 4 \<le>\<close> the size of the code image. Pass 3 keeps the size
  of the image, so the bound holds at each of its reads and writes: pass 3 never
  leaves the byte array (\<open>OutOfBounds\<close>).
\<close>

theorem link_requests_within_image:
  assumes "fold (pass2_body A) expandedLines ([], [], Map.empty, []) = (codeImage, errs, symbolMap, needsLinkage)"
  shows "(\<forall>req \<in> set needsLinkage. offset req + 4 \<le> length codeImage) \<and>
         pass3 A codeImage symbolMap needsLinkage \<noteq> Inl OutOfBounds \<and>
         (\<forall>res codeImage'. pass3 A codeImage symbolMap needsLinkage = Inr (res, codeImage') \<longrightarrow>
            length codeImage' = length codeImage)"
proof -
  have inv: "\<forall>req \<in> set needsLinkage. offset req + 4 \<le> length codeImage"
    using pass2_fold_links [OF assms] by simp
  let ?loop = "pass3_loop A symbolMap needsLinkage (codeImage, [])"
  from pass3_loop_in_bounds [OF inv, of A symbolMap "[]"]
  have nb: "?loop \<noteq> Inl OutOfBounds"
    and len: "\<And>p e. ?loop = Inr (p, e) \<Longrightarrow> length p = length codeImage"
    by blast+
  have p3: "pass3 A codeImage symbolMap needsLinkage \<noteq> Inl OutOfBounds"
  proof (cases ?loop)
    case (Inl f)
    with nb show ?thesis by (simp add: pass3_def)
  next
    case (Inr pe)
    then show ?thesis by (cases pe) (simp add: pass3_def)
  qed
  have keep: "length codeImage' = length codeImage"
    if "pass3 A codeImage symbolMap needsLinkage = Inr (res, codeImage')" for res codeImage'
  proof (cases ?loop)
    case (Inl f)
    with that show ?thesis by (simp add: pass3_def)
  next
    case (Inr pe)
    obtain p e where pe: "pe = (p, e)" by (cases pe) auto
    with Inr that have "codeImage' = p" by (simp add: pass3_def)
    with len [of p e] Inr pe show ?thesis by simp
  qed
  from inv p3 keep show ?thesis by blast
qed

lemma demo_pass2_link:
  "\<exists>sm. fold (pass2_body demoISA) demoLines ([], [], Map.empty, []) =
     ([0x6F, 0, 0, 0, 0x13, 0, 0, 0, 0x13, 0, 0, 0], [], sm, [demoLink]) \<and> sm ''end'' = Some 8"
  by (simp add: demoLines_def demoLink_def demo_simps)

lemma demo_pass3_link:
  "pass3 demoISA [0x6F, 0, 0, 0, 0x13, 0, 0, 0, 0x13, 0, 0, 0] [''end'' \<mapsto> 8] [demoLink] =
     Inr (Inr (), [0x6F, 0x80, 0, 0, 0x13, 0, 0, 0, 0x13, 0, 0, 0])"
  by (simp add: demoLink_def demo_simps writeWord_def bytesWord_def)


theorem link_requests_within_image_witness:
  "\<exists>sm. fold (pass2_body demoISA) demoLines ([], [], Map.empty, []) =
          ([0x6F, 0, 0, 0, 0x13, 0, 0, 0, 0x13, 0, 0, 0], [], sm, [demoLink]) \<and>
     (\<forall>req \<in> set [demoLink]. offset req + 4 \<le> length [0x6F, 0, 0, 0, 0x13, 0, 0, 0, 0x13, 0, 0, 0 :: 8 word]) \<and>
     pass3 demoISA [0x6F, 0, 0, 0, 0x13, 0, 0, 0, 0x13, 0, 0, 0] sm [demoLink] \<noteq> Inl OutOfBounds \<and>
     (\<forall>res codeImage'.
        pass3 demoISA [0x6F, 0, 0, 0, 0x13, 0, 0, 0, 0x13, 0, 0, 0] sm [demoLink] = Inr (res, codeImage') \<longrightarrow>
        length codeImage' = length [0x6F, 0, 0, 0, 0x13, 0, 0, 0, 0x13, 0, 0, 0 :: 8 word])"
proof -
  from demo_pass2_link obtain sm where
    run: "fold (pass2_body demoISA) demoLines ([], [], Map.empty, []) =
            ([0x6F, 0, 0, 0, 0x13, 0, 0, 0, 0x13, 0, 0, 0], [], sm, [demoLink])"
    by blast
  from link_requests_within_image [OF run] run show ?thesis by blast
qed

text \<open>
  The \<^verbatim>\<open>assert\<close> of pass 3 is written \<^verbatim>\<open>program.size() <= (linkRequest.offset + 4)\<close>. In a
  build that keeps assertions it stops pass 3 on the same program, whose link
  request lies well inside the image.
\<close>

lemma demo_pass3_assert:
  "pass3 (demoISA\<lparr>assertsEnabled := True\<rparr>) [0x6F, 0, 0, 0, 0x13, 0, 0, 0, 0x13, 0, 0, 0]
      [''end'' \<mapsto> 8] [demoLink] =
     Inl (AssertionFailed ''Error: position of link request is not within program'')"
  by (simp add: demoLink_def demo_simps)

section \<open>A symbol defined twice\<close>

lemma pass2_body_assembles:
  assumes "assembles A l"
  shows "\<exists>bytes nl'. pass2_body A l (prog, errs, sm, nl) =
           (prog @ bytes,
            fst (fold (pass2_symbol (sourceLine l) (length prog)) (symbols l) (errs, sm)),
            snd (fold (pass2_symbol (sourceLine l) (length prog)) (symbols l) (errs, sm)), nl')"
  using assms
  by (auto simp: assembles_def pass2_body_def Let_def split: sum.splits option.splits prod.splits)

lemma pass2_two_labelled_lines:
  assumes "symbols L0 = [''a'']" and "symbols L1 = [''a'']" and "sourceLine L1 = 1"
    and "assembles A L0" and "assembles A L1"
  shows "\<exists>sm nl. pass2 A [L0, L1] Map.empty [] =
           (Inl [Error 1 (''Multiple definitions of symbol 'a'' @ [CHR 0x27])], sm, nl) \<and> sm ''a'' = Some 0"
proof -
  from pass2_body_assembles [OF assms(4), of "[]" "[]" Map.empty "[]"] assms(1)
  obtain bytes0 nl0 where b0:
    "pass2_body A L0 ([], [], Map.empty, []) = (bytes0, [], [''a'' \<mapsto> 0], nl0)"
    by (auto simp: pass2_symbol_cases)
  from pass2_body_assembles [OF assms(5), of bytes0 "[]" "[''a'' \<mapsto> 0]" nl0] assms(2,3)
  obtain bytes1 nl1 where b1:
    "pass2_body A L1 (bytes0, [], [''a'' \<mapsto> 0], nl0) =
       (bytes0 @ bytes1, [Error 1 (''Multiple definitions of symbol 'a'' @ [CHR 0x27])], [''a'' \<mapsto> 0], nl1)"
    by (auto simp: pass2_symbol_cases)
  show ?thesis
    using b0 b1 by (simp add: pass2_def)
qed

text \<open>
  C4. First part: whenever passes 0 and 1 read the program \<open>a: addi x1,x0,0\<close> /
  \<open>a: addi x2,x0,0\<close> as two lines that both carry the symbol \<open>a\<close> and both assemble,
  the second at source line 1, \<^verbatim>\<open>assemble\<close> returns no program bytes and the single
  error \<open>Multiple definitions of symbol 'a'\<close> at line 1. Second part: when the symbol
  map after the lines \<open>pre\<close> binds \<open>s\<close> and the next line \<open>l\<close> carries \<open>s\<close> again, pass 2
  fails, its errors hold \<open>Multiple definitions of symbol 's'\<close> at the source line of
  \<open>l\<close>, and the symbol map still has the first binding of \<open>s\<close>.
\<close>

theorem duplicate_symbol_error:
  "(pass0 A [''a: addi x1,x0,0'', ''a: addi x2,x0,0''] = Inr t \<and> pass1 A t = Inr [L0, L1] \<and>
    symbols L0 = [''a''] \<and> symbols L1 = [''a''] \<and> sourceLine L1 = 1 \<and>
    assembles A L0 \<and> assembles A L1 \<longrightarrow>
      assemble A [''a: addi x1,x0,0'', ''a: addi x2,x0,0''] =
        Inr \<lparr>program = [], errors = [Error 1 (''Multiple definitions of symbol 'a'' @ [CHR 0x27])]\<rparr>) \<and>
   (pass2 A pre Map.empty [] = (r1, sm1, nl1) \<and> sm1 s = Some v \<and> s \<in> set (symbols l) \<longrightarrow>
      (\<exists>es sm nl. pass2 A (pre @ [l] @ post) Map.empty [] = (Inl es, sm, nl) \<and>
         Error (sourceLine l) (''Multiple definitions of symbol '' @ [CHR 0x27] @ s @ [CHR 0x27]) \<in> set es \<and>
         sm s = Some v))"
proof (intro conjI impI)
  assume h: "pass0 A [''a: addi x1,x0,0'', ''a: addi x2,x0,0''] = Inr t \<and> pass1 A t = Inr [L0, L1] \<and>
    symbols L0 = [''a''] \<and> symbols L1 = [''a''] \<and> sourceLine L1 = 1 \<and>
    assembles A L0 \<and> assembles A L1"
  then obtain sm nl where
    "pass2 A [L0, L1] Map.empty [] =
       (Inl [Error 1 (''Multiple definitions of symbol 'a'' @ [CHR 0x27])], sm, nl)"
    using pass2_two_labelled_lines [of L0 L1 A] by blast
  with h show "assemble A [''a: addi x1,x0,0'', ''a: addi x2,x0,0''] =
        Inr \<lparr>program = [], errors = [Error 1 (''Multiple definitions of symbol 'a'' @ [CHR 0x27])]\<rparr>"
    by (simp add: assemble_def runPass_def)
next
  assume h: "pass2 A pre Map.empty [] = (r1, sm1, nl1) \<and> sm1 s = Some v \<and> s \<in> set (symbols l)"
  obtain p1 e1 s1 n1 where pre: "fold (pass2_body A) pre ([], [], Map.empty, []) = (p1, e1, s1, n1)"
    by (cases "fold (pass2_body A) pre ([], [], Map.empty, [])") auto
  with h have s1: "s1 s = Some v" by (simp add: pass2_def)
  obtain p2 e2 s2 n2 where line: "pass2_body A l (p1, e1, s1, n1) = (p2, e2, s2, n2)"
    by (cases "pass2_body A l (p1, e1, s1, n1)") auto
  obtain p3 e3 s3 n3 where post: "fold (pass2_body A) post (p2, e2, s2, n2) = (p3, e3, s3, n3)"
    by (cases "fold (pass2_body A) post (p2, e2, s2, n2)") auto
  have all: "fold (pass2_body A) (pre @ [l] @ post) ([], [], Map.empty, []) = (p3, e3, s3, n3)"
    using pre line post by simp
  from h have sl: "s \<in> set (symbols l)" by simp
  have err: "Error (sourceLine l) (''Multiple definitions of symbol '' @ [CHR 0x27] @ s @ [CHR 0x27]) \<in> set e2"
    using pass2_body_facts(4) [OF line sl s1] .
  from pass2_fold_errs [OF post] obtain e where "e3 = e2 @ e" by blast
  with err have err3: "Error (sourceLine l) (''Multiple definitions of symbol '' @ [CHR 0x27] @ s @ [CHR 0x27]) \<in> set e3"
    by simp
  then have ne: "e3 \<noteq> []" by auto
  have "s2 s = Some v" using pass2_body_facts(3) [OF line s1] .
  then have s3: "s3 s = Some v" using pass2_fold_keeps [OF post] by simp
  have "pass2 A (pre @ [l] @ post) Map.empty [] = (Inl e3, s3, n3)"
    using all ne unfolding pass2_def by simp
  with err3 s3 show "\<exists>es sm nl. pass2 A (pre @ [l] @ post) Map.empty [] = (Inl es, sm, nl) \<and>
         Error (sourceLine l) (''Multiple definitions of symbol '' @ [CHR 0x27] @ s @ [CHR 0x27]) \<in> set es \<and>
         sm s = Some v"
    by blast
qed

lemma demo_duplicate:
  "pass0 demoISA [''a: addi x1,x0,0'', ''a: addi x2,x0,0''] = Inr [demoA0, demoA1]"
  "pass1 demoISA [demoA0, demoA1] = Inr [demoA0, demoA1]"
  "symbols demoA0 = [''a'']" "symbols demoA1 = [''a'']" "sourceLine demoA1 = 1"
  "assembles demoISA demoA0" "assembles demoISA demoA1"
  "\<exists>sm1. pass2 demoISA [demoA0] Map.empty [] = (Inr [0x13, 0, 0, 0], sm1, []) \<and> sm1 ''a'' = Some 0"
  "''a'' \<in> set (symbols demoA1)"
  by (simp_all add: demoA0_def demoA1_def demo_simps assembles_def)

theorem duplicate_symbol_error_witness:
  "assemble demoISA [''a: addi x1,x0,0'', ''a: addi x2,x0,0''] =
     Inr \<lparr>program = [], errors = [Error 1 (''Multiple definitions of symbol 'a'' @ [CHR 0x27])]\<rparr> \<and>
   (\<exists>es sm nl. pass2 demoISA ([demoA0] @ [demoA1] @ []) Map.empty [] = (Inl es, sm, nl) \<and>
      Error 1 (''Multiple definitions of symbol 'a'' @ [CHR 0x27]) \<in> set es \<and> sm ''a'' = Some 0)"
proof -
  from demo_duplicate(8) obtain sm1 where
    one: "pass2 demoISA [demoA0] Map.empty [] = (Inr [0x13, 0, 0, 0], sm1, [])" and a: "sm1 ''a'' = Some 0"
    by blast
  have first: "assemble demoISA [''a: addi x1,x0,0'', ''a: addi x2,x0,0''] =
     Inr \<lparr>program = [], errors = [Error 1 (''Multiple definitions of symbol 'a'' @ [CHR 0x27])]\<rparr>"
    using duplicate_symbol_error [of demoISA "[demoA0, demoA1]" demoA0 demoA1] demo_duplicate(1-7)
    by blast
  have second: "\<exists>es sm nl. pass2 demoISA ([demoA0] @ [demoA1] @ []) Map.empty [] = (Inl es, sm, nl) \<and>
      Error (sourceLine demoA1) (''Multiple definitions of symbol '' @ [CHR 0x27] @ ''a'' @ [CHR 0x27]) \<in> set es \<and>
      sm ''a'' = Some 0"
    using duplicate_symbol_error [of demoISA _ _ _ "[demoA0]" "Inr [0x13, 0, 0, 0]" sm1 "[]" "''a''" 0 demoA1 "[]"]
      one a demo_duplicate(9)
    by blast
  from first second demo_duplicate(5) show ?thesis by simp
qed

section \<open>Pass 0: the carry\<close>








section \<open>Carried labels bind to the next offset\<close>








end
